theory Spec2Isabelle
  imports Main "HOL-Library.Multiset"
begin

section \<open>Tasks and the single-suggestion operation\<close>

text \<open>
  The \<open>Task\<close> interface of the task components. The identifier field \<open>id\<close> is called
  \<open>task_id\<close> here; \<open>difficulty\<close> is a JavaScript number holding an integer, timestamps
  are kept as the strings the client receives.
\<close>

datatype priority = low | medium | high

record task =
  task_id :: string
  user_id :: string
  title :: string
  description :: "string option"
  priority :: priority
  difficulty :: int
  estimated_time :: "int option"
  completed :: bool
  completed_at :: "string option"
  created_at :: string
  updated_at :: string

datatype js_error = TypeError | FetchError

text \<open>
  \<open>xs[0]\<close>: reading index 0 of an empty array gives \<open>undefined\<close>, which the component
  treats like \<open>null\<close> (no suggestion).
\<close>

definition at0 :: "'a list \<Rightarrow> 'a option" where
  "at0 xs = (case xs of [] \<Rightarrow> None | x # _ \<Rightarrow> Some x)"

text \<open>
  \<open>Array.prototype.reduce\<close> without an initial value: the first element starts the
  accumulator, and an empty array raises a TypeError.
\<close>

definition reduce1 :: "('a \<Rightarrow> 'a \<Rightarrow> 'a) \<Rightarrow> 'a list \<Rightarrow> js_error + 'a" where
  "reduce1 f xs = (case xs of [] \<Rightarrow> Inl TypeError | x # rest \<Rightarrow> Inr (foldl f x rest))"

text \<open>
  The selection of \<open>fetchSuggestedTask\<close> (component \<open>SuggestedTask\<close>), from the moment
  the query for the user's incomplete tasks has returned \<open>tasks\<close>. The result is the
  value handed to \<open>setSuggestedTask\<close>. The function reads \<open>mood\<close> from the properties of
  the component, which calls it only while \<open>mood\<close> is truthy (neither \<open>null\<close> nor 0);
  the function itself puts no condition on the value.
\<close>

definition fetchSuggestedTask :: "int \<Rightarrow> task list \<Rightarrow> js_error + task option" where
  "fetchSuggestedTask mood tasks =
     (if length tasks = 0 then Inr None
      else if mood \<le> 2 then
        (let easyTasks = filter (\<lambda>t. difficulty t \<le> 3) tasks in
         if length easyTasks > 0
         then map_sum id Some
                (reduce1 (\<lambda>prev current.
                            if difficulty current < difficulty prev then current else prev)
                         easyTasks)
         else Inr None)
      else if mood = 3 then
        (let mediumTasks = filter (\<lambda>t. priority t = medium) tasks in
         Inr (if length mediumTasks > 0 then at0 mediumTasks else at0 tasks))
      else
        (let hardTasks = filter (\<lambda>t. difficulty t \<ge> 4) tasks;
             highPriorityTasks =
               (if length hardTasks > 0
                then filter (\<lambda>t. priority t = high) hardTasks
                else filter (\<lambda>t. priority t = high) tasks)
         in Inr (if length highPriorityTasks > 0 then at0 highPriorityTasks else at0 tasks)))"

text \<open>
  The effect of the component on \<open>mood\<close> (a number or \<open>null\<close>): a truthy mood runs
  \<open>fetchSuggestedTask\<close>, \<open>null\<close> and 0 clear the suggestion. The subscription to changes
  and the button of the rendered suggestion reach \<open>fetchSuggestedTask\<close> under the same
  test, so this is how a mood gets to the selection.
\<close>

definition SuggestedTask_effect :: "int option \<Rightarrow> task list \<Rightarrow> js_error + task option" where
  "SuggestedTask_effect mood tasks =
     (case mood of
        None \<Rightarrow> Inr None
      | Some m \<Rightarrow> if m \<noteq> 0 then fetchSuggestedTask m tasks else Inr None)"

text \<open>
  A task built from the three attributes that the selection and the ranking read; the
  remaining fields are fixed. Used for the concrete inputs below.
\<close>

definition example_task :: "string \<Rightarrow> priority \<Rightarrow> int \<Rightarrow> task" where
  "example_task name p d =
     \<lparr>task_id = name, user_id = ''u1'', title = name, description = None, priority = p,
      difficulty = d, estimated_time = None, completed = False, completed_at = None,
      created_at = ''2024-01-01T00:00:00Z'', updated_at = ''2024-01-01T00:00:00Z''\<rparr>"

text \<open>
  The high-mood rule as the specification words it (not the code): the first task with
  \<open>difficulty \<ge> 4\<close> and \<open>priority = high\<close>, else the first task with \<open>priority = high\<close>,
  else the first task.
\<close>

definition high_mood_as_specified :: "task list \<Rightarrow> task option" where
  "high_mood_as_specified tasks =
     (case find (\<lambda>t. difficulty t \<ge> 4 \<and> priority t = high) tasks of
        Some t \<Rightarrow> Some t
      | None \<Rightarrow> (case find (\<lambda>t. priority t = high) tasks of
                   Some t \<Rightarrow> Some t
                 | None \<Rightarrow> at0 tasks))"

section \<open>The full-list ranking\<close>

text \<open>
  \<open>Array.prototype.sort\<close> with a comparator. ECMAScript requires the sort to be stable and,
  for a consistent comparator, to deliver the elements in comparator order; which
  algorithm the engine runs is not fixed. The model is a stable insertion sort: an
  element goes in front of the first element it does not compare greater than.
\<close>

fun insert_cmp :: "('a \<Rightarrow> 'a \<Rightarrow> int) \<Rightarrow> 'a \<Rightarrow> 'a list \<Rightarrow> 'a list" where
  "insert_cmp cmp x [] = [x]"
| "insert_cmp cmp x (y # ys) =
     (if cmp x y \<le> 0 then x # y # ys else y # insert_cmp cmp x ys)"

definition array_sort :: "('a \<Rightarrow> 'a \<Rightarrow> int) \<Rightarrow> 'a list \<Rightarrow> 'a list" where
  "array_sort cmp xs = foldr (insert_cmp cmp) xs []"

text \<open>The object literal \<open>{ high: 3, medium: 2, low: 1 }\<close> and the score built on it.\<close>

fun priorityWeight :: "priority \<Rightarrow> int" where
  "priorityWeight high = 3"
| "priorityWeight medium = 2"
| "priorityWeight low = 1"

definition score :: "task \<Rightarrow> int" where
  "score t = priorityWeight (priority t) * 10 + difficulty t"

text \<open>
  \<open>sortTasksByMood\<close> of the task list component, in the variant that filters by difficulty
  for a low mood and scores with \<open>priorityWeight * 10\<close>. (An earlier variant of the
  component, which only reorders, is a different operation.)
\<close>

definition sortTasksByMood :: "task list \<Rightarrow> int \<Rightarrow> task list" where
  "sortTasksByMood tasks mood =
     (let incompleteTasks = filter (\<lambda>task. \<not> completed task) tasks in
      if mood \<le> 2 then
        (let suitableTasks = filter (\<lambda>task. difficulty task \<le> 3) incompleteTasks
         in array_sort (\<lambda>a b. difficulty a - difficulty b) suitableTasks)
      else if mood = 3 then
        array_sort (\<lambda>a b. let scoreA = score a; scoreB = score b in scoreB - scoreA)
          incompleteTasks
      else
        array_sort (\<lambda>a b. let scoreA = score a; scoreB = score b in scoreB - scoreA)
          incompleteTasks)"

section \<open>Travel computation for calendar events\<close>

text \<open>
  An instant is the time value of a JavaScript \<open>Date\<close>: a whole number of milliseconds
  since 1970-01-01T00:00:00Z. The timestamp columns of an event carry instants; the ISO
  strings on the wire are their notation. Durations are whole numbers as well. Time
  values and durations are taken as unbounded integers: the limit of \<open>Date\<close> at
  8.64e15 milliseconds either side of the epoch and the rounding of numbers beyond
  2^53 are not modelled.
\<close>

record calendar_event =
  event_id :: string
  event_user_id :: string
  google_event_id :: string
  event_title :: string
  event_description :: "string option"
  start_time :: int
  end_time :: int
  location :: "string option"
  travel_time_seconds :: "int option"
  recommended_leave_time :: "int option"
  synced_at :: int
  event_created_at :: int
  event_updated_at :: int

record profile =
  home_location :: "string option"
  cooking_time :: "int option"
  getting_ready_time :: "int option"
  travel_buffer_time :: "int option"
  wake_up_margin :: "int option"

text \<open>A nullable numeric column used in arithmetic: \<open>null\<close> converts to 0.\<close>

definition ToNumber :: "int option \<Rightarrow> int" where
  "ToNumber v = (case v of None \<Rightarrow> 0 | Some n \<Rightarrow> n)"

text \<open>A string that may be \<open>null\<close>, tested with \<open>!\<close>: \<open>null\<close> and the empty string are falsy.\<close>

definition falsy :: "string option \<Rightarrow> bool" where
  "falsy v = (case v of None \<Rightarrow> True | Some s \<Rightarrow> s = [])"

text \<open>
  The reply of the directions service, as far as the handler reads it:
  \<open>data.status\<close> and \<open>data.routes[0].legs[0].duration.value\<close>. The call itself
  (\<open>fetch\<close>, then \<open>response.json()\<close>) may throw.
\<close>

record leg =
  duration_value :: int

record route =
  legs :: "leg list"

record directions =
  status :: string
  routes :: "route list"

datatype fetch_result = Rejected | Reply directions

record schedule =
  leaveTime :: int
  getReadyTime :: int
  cookStartTime :: int
  wakeUpTime :: int

text \<open>The four instants, computed in the body of the \<open>if\<close> for one event.\<close>

definition schedule_chain :: "profile \<Rightarrow> int \<Rightarrow> int \<Rightarrow> schedule" where
  "schedule_chain profile eventStart travelSeconds =
     (let travelWithBuffer = travelSeconds + ToNumber (travel_buffer_time profile) * 60;
          leaveTime = eventStart - travelWithBuffer * 1000;
          getReadyTime = leaveTime - ToNumber (getting_ready_time profile) * 60 * 1000;
          cookStartTime = getReadyTime - ToNumber (cooking_time profile) * 60 * 1000;
          wakeUpTime = cookStartTime - ToNumber (wake_up_margin profile) * 60 * 1000
      in \<lparr>leaveTime = leaveTime, getReadyTime = getReadyTime,
          cookStartTime = cookStartTime, wakeUpTime = wakeUpTime\<rparr>)"

record event_update =
  upd_id :: string
  upd_travel_time_seconds :: int
  upd_recommended_leave_time :: int

text \<open>
  The body of the inner \<open>try\<close> for one event: \<open>Inl\<close> is an exception (which the
  \<open>catch\<close> of the loop logs), \<open>Inr None\<close> the case where the \<open>if\<close> fails, and
  \<open>Inr (Some u)\<close> the object pushed to \<open>updates\<close>.
\<close>

definition process_event ::
    "profile \<Rightarrow> calendar_event \<Rightarrow> fetch_result \<Rightarrow> js_error + event_update option" where
  "process_event profile event r =
     (case r of
        Rejected \<Rightarrow> Inl FetchError
      | Reply data \<Rightarrow>
          if status data = ''OK'' \<and> length (routes data) > 0 then
            (case legs (hd (routes data)) of
               [] \<Rightarrow> Inl TypeError
             | l # _ \<Rightarrow>
                 (let travelSeconds = duration_value l;
                      chain = schedule_chain profile (start_time event) travelSeconds
                  in Inr (Some \<lparr>upd_id = event_id event,
                                 upd_travel_time_seconds = travelSeconds,
                                 upd_recommended_leave_time = leaveTime chain\<rparr>)))
          else Inr None)"

text \<open>The first loop: one event after the other, an exception ends only that event.\<close>

fun collect_updates ::
    "profile \<Rightarrow> (calendar_event \<Rightarrow> fetch_result) \<Rightarrow> calendar_event list
      \<Rightarrow> event_update list \<Rightarrow> event_update list" where
  "collect_updates profile fetch [] updates = updates"
| "collect_updates profile fetch (event # events) updates =
     (case process_event profile event (fetch event) of
        Inl error \<Rightarrow> collect_updates profile fetch events updates
      | Inr None \<Rightarrow> collect_updates profile fetch events updates
      | Inr (Some u) \<Rightarrow> collect_updates profile fetch events (updates @ [u]))"

text \<open>
  The schema puts the trigger \<open>update_calendar_events_updated_at\<close> on the table: before
  each update of a row the function \<open>update_updated_at_column\<close> runs on the new row. The
  body of the function is not among the sources; as it is named, it sets \<open>updated_at\<close>,
  and the instant it writes (the time of the statement) is a parameter.
\<close>

definition update_updated_at_column :: "int \<Rightarrow> calendar_event \<Rightarrow> calendar_event" where
  "update_updated_at_column t new = new\<lparr>event_updated_at := t\<rparr>"

text \<open>
  The answer of the database to one update statement: an error object, which leaves the
  table as it is, or success at some instant. The handler does not look at the answer.
\<close>

datatype write_result = WriteError | Written int

text \<open>
  The statement \<open>update({travel_time_seconds, recommended_leave_time}).eq('id', update.id)\<close>
  when it succeeds at instant \<open>t\<close>: the rows with that identifier get the two named
  columns, and the trigger runs on them.
\<close>

definition apply_update :: "int \<Rightarrow> event_update \<Rightarrow> calendar_event \<Rightarrow> calendar_event" where
  "apply_update t u row =
     (if event_id row = upd_id u
      then update_updated_at_column t
             (row\<lparr>travel_time_seconds := Some (upd_travel_time_seconds u),
                  recommended_leave_time := Some (upd_recommended_leave_time u)\<rparr>)
      else row)"

text \<open>What one statement does to one row, by the answer of the database.\<close>

definition write_row ::
    "(event_update \<Rightarrow> write_result) \<Rightarrow> event_update \<Rightarrow> calendar_event \<Rightarrow> calendar_event" where
  "write_row answer u row =
     (case answer u of WriteError \<Rightarrow> row | Written t \<Rightarrow> apply_update t u row)"

text \<open>The second loop: one statement for each collected update, in order.\<close>

fun write_updates ::
    "(event_update \<Rightarrow> write_result) \<Rightarrow> event_update list \<Rightarrow> calendar_event list
      \<Rightarrow> calendar_event list" where
  "write_updates answer [] table = table"
| "write_updates answer (u # us) table =
     write_updates answer us (map (write_row answer u) table)"

datatype response = Preflight | Updated nat | Failed string

text \<open>
  What the handler reads from outside: the request, the outcome of the authentication
  and of the two queries, the clock, the directions service, and the answers of the
  database to the update statements.
\<close>

record request_env =
  req_method :: string
  authHeader :: "string option"
  auth_user :: "string option"
  profile_row :: "profile option"
  eventsError :: "string option"
  now :: int
  directions_api :: "calendar_event \<Rightarrow> fetch_result"
  db_update :: "event_update \<Rightarrow> write_result"

text \<open>
  The query for the events to process: rows of the signed-in user that have a location
  and do not start before the current instant.
\<close>

definition select_events :: "string \<Rightarrow> int \<Rightarrow> calendar_event list \<Rightarrow> calendar_event list" where
  "select_events uid t table =
     filter (\<lambda>e. event_user_id e = uid \<and> location e \<noteq> None \<and> start_time e \<ge> t) table"

text \<open>
  The two loops and the success response, for the events that the query returned.
  \<open>Updated n\<close> is the response \<open>{ updated: n }\<close>.
\<close>

definition run_batch ::
    "profile \<Rightarrow> (calendar_event \<Rightarrow> fetch_result) \<Rightarrow> (event_update \<Rightarrow> write_result)
      \<Rightarrow> calendar_event list \<Rightarrow> calendar_event list \<Rightarrow> response \<times> calendar_event list" where
  "run_batch profile fetch answer events table =
     (let updates = collect_updates profile fetch events []
      in (Updated (length updates), write_updates answer updates table))"

text \<open>
  The handler of \<open>calculate-travel\<close>: the response and the table of events afterwards.
  \<open>Failed m\<close> is the status-400 response \<open>{ error: m }\<close> of the outer \<open>catch\<close>.
\<close>

definition handler :: "request_env \<Rightarrow> calendar_event list \<Rightarrow> response \<times> calendar_event list" where
  "handler env table =
     (if req_method env = ''OPTIONS'' then (Preflight, table)
      else if falsy (authHeader env) then (Failed ''No authorization header'', table)
      else case auth_user env of
        None \<Rightarrow> (Failed ''Not authenticated'', table)
      | Some uid \<Rightarrow>
         (case profile_row env of
            None \<Rightarrow> (Failed ''Home location not set in profile'', table)
          | Some profile \<Rightarrow>
              if falsy (home_location profile)
              then (Failed ''Home location not set in profile'', table)
              else (case eventsError env of
                      Some msg \<Rightarrow> (Failed msg, table)
                    | None \<Rightarrow>
                        run_batch profile (directions_api env) (db_update env)
                          (select_events uid (now env) table) table)))"

text \<open>
  The conditions under which the handler gets to the two loops: the request is not a
  preflight, it carries an authorization header, the user \<open>uid\<close> is signed in, the profile
  \<open>p\<close> was found and has a home location, and the query for the events gave no error.
\<close>

definition reaches_batch :: "request_env \<Rightarrow> string \<Rightarrow> profile \<Rightarrow> bool" where
  "reaches_batch env uid p =
     (req_method env \<noteq> ''OPTIONS'' \<and> \<not> falsy (authHeader env) \<and> auth_user env = Some uid
      \<and> profile_row env = Some p \<and> \<not> falsy (home_location p) \<and> eventsError env = None)"

text \<open>
  The instant that an ISO timestamp \<open>YYYY-MM-DDTHH:mm:ssZ\<close> denotes, by the day-number
  formulas of the ECMAScript \<open>Date\<close> object (months counted from 1, as written in the
  timestamp).
\<close>

definition DayFromYear :: "int \<Rightarrow> int" where
  "DayFromYear y =
     365 * (y - 1970) + (y - 1969) div 4 - (y - 1901) div 100 + (y - 1601) div 400"

definition InLeapYear :: "int \<Rightarrow> bool" where
  "InLeapYear y =
     (if y mod 400 = 0 then True else if y mod 100 = 0 then False else y mod 4 = 0)"

definition days_before_month :: "bool \<Rightarrow> int \<Rightarrow> int" where
  "days_before_month leap m =
     (if m \<le> 1 then 0 else if m = 2 then 31
      else (if leap then 1 else 0) +
           (if m = 3 then 59 else if m = 4 then 90 else if m = 5 then 120
            else if m = 6 then 151 else if m = 7 then 181 else if m = 8 then 212
            else if m = 9 then 243 else if m = 10 then 273 else if m = 11 then 304
            else 334))"

definition utc_instant :: "int \<Rightarrow> int \<Rightarrow> int \<Rightarrow> int \<Rightarrow> int \<Rightarrow> int \<Rightarrow> int" where
  "utc_instant y m d hh mm ss =
     (DayFromYear y + days_before_month (InLeapYear y) m + (d - 1)) * 86400000
       + hh * 3600000 + mm * 60000 + ss * 1000"

text \<open>
  What the first loop contributes for one event: the update pushed, or nothing when the
  body threw or the \<open>if\<close> failed.
\<close>

definition pushed ::
    "profile \<Rightarrow> (calendar_event \<Rightarrow> fetch_result) \<Rightarrow> calendar_event \<Rightarrow> event_update option" where
  "pushed profile fetch event =
     (case process_event profile event (fetch event) of Inl error \<Rightarrow> None | Inr r \<Rightarrow> r)"

text \<open>
  A routing failure in the sense of the specification: the call throws, or the reply has
  a status other than OK, or it has no routes.
\<close>

definition routing_failed :: "fetch_result \<Rightarrow> bool" where
  "routing_failed r =
     (case r of Rejected \<Rightarrow> True | Reply data \<Rightarrow> status data \<noteq> ''OK'' \<or> routes data = [])"

text \<open>Concrete inputs: the routine durations and the events of the examples.\<close>

definition example_profile :: profile where
  "example_profile =
     \<lparr>home_location = Some ''home'', cooking_time = Some 30, getting_ready_time = Some 45,
      travel_buffer_time = Some 15, wake_up_margin = Some 30\<rparr>"

definition example_event :: "string \<Rightarrow> calendar_event" where
  "example_event name =
     \<lparr>event_id = name, event_user_id = ''u1'', google_event_id = name, event_title = name,
      event_description = None, start_time = utc_instant 2024 1 1 18 0 0,
      end_time = utc_instant 2024 1 1 19 0 0, location = Some name,
      travel_time_seconds = None, recommended_leave_time = None,
      synced_at = 0, event_created_at = 0, event_updated_at = 0\<rparr>"

definition ok_reply :: "int \<Rightarrow> fetch_result" where
  "ok_reply secs = Reply \<lparr>status = ''OK'', routes = [\<lparr>legs = [\<lparr>duration_value = secs\<rparr>]\<rparr>]\<rparr>"

definition example_fetch :: "calendar_event \<Rightarrow> fetch_result" where
  "example_fetch e = (if event_id e = ''e3'' then Rejected else ok_reply 1800)"

definition example_events :: "calendar_event list" where
  "example_events = map example_event [''e1'', ''e2'', ''e3'', ''e4'', ''e5'']"

definition example_env :: request_env where
  "example_env =
     \<lparr>req_method = ''POST'', authHeader = Some ''Bearer token'', auth_user = Some ''u1'',
      profile_row = Some example_profile, eventsError = None,
      now = utc_instant 2023 12 31 9 0 0, directions_api = example_fetch,
      db_update = (\<lambda>u. Written (utc_instant 2023 12 31 9 0 1))\<rparr>"

text \<open>The same request when the database answers the update of event e2 with an error.\<close>

definition example_env_write_error :: request_env where
  "example_env_write_error =
     example_env\<lparr>db_update :=
       (\<lambda>u. if upd_id u = ''e2'' then WriteError else Written (utc_instant 2023 12 31 9 0 1))\<rparr>"

section \<open>The single suggestion: proofs\<close>

lemma find_filter_conj: "find P (filter Q xs) = find (\<lambda>x. Q x \<and> P x) xs"
  by (induction xs) auto

lemma at0_filter: "at0 (filter P xs) = find P xs"
  by (induction xs) (auto simp: at0_def)

text \<open>
  The reducer of the low-mood branch keeps the earliest element of least key: a later
  element replaces the accumulator only when it is strictly smaller.
\<close>

lemma foldl_first_min:
  fixes f :: "'a \<Rightarrow> int"
  shows "find (\<lambda>t. \<forall>u\<in>set (x # rest). f t \<le> f u) (x # rest)
       = Some (foldl (\<lambda>prev current. if f current < f prev then current else prev) x rest)"
proof (induction rest arbitrary: x)
  case Nil
  then show ?case by simp
next
  case (Cons y ys)
  let ?g = "\<lambda>prev current. if f current < f prev then current else prev"
  let ?P = "\<lambda>t. \<forall>u\<in>set (x # y # ys). f t \<le> f u"
  show ?case
  proof (cases "f y < f x")
    case True
    let ?P' = "\<lambda>t. \<forall>u\<in>set (y # ys). f t \<le> f u"
    have "find ?P (x # y # ys) = find ?P (y # ys)" using True by auto
    also have "\<dots> = find ?P' (y # ys)"
      by (rule find_cong) (use True in force)+
    also have "\<dots> = Some (foldl ?g y ys)" by (rule Cons.IH)
    finally show ?thesis using True by simp
  next
    case False
    let ?P' = "\<lambda>t. \<forall>u\<in>set (x # ys). f t \<le> f u"
    have "find ?P (x # y # ys) = find ?P' (x # ys)"
    proof (cases "?P x")
      case True
      then show ?thesis by auto
    next
      case nP: False
      have ny: "\<not> ?P y" using nP False by force
      have nx': "\<not> ?P' x" using nP False by force
      have "find ?P ys = find ?P' ys"
        by (rule find_cong) (use False in force)+
      moreover have "find ?P (x # y # ys) = find ?P ys"
        using nP ny by (simp only: find.simps if_False)
      moreover have "find ?P' (x # ys) = find ?P' ys"
        using nx' by (simp only: find.simps if_False)
      ultimately show ?thesis by simp
    qed
    also have "\<dots> = Some (foldl ?g x ys)" by (rule Cons.IH)
    finally show ?thesis using False by simp
  qed
qed

lemma reduce1_first_min:
  fixes f :: "'a \<Rightarrow> int"
  assumes "xs \<noteq> []"
  shows "reduce1 (\<lambda>prev current. if f current < f prev then current else prev) xs
       = Inr (the (find (\<lambda>t. \<forall>u\<in>set xs. f t \<le> f u) xs))"
proof -
  obtain x rest where xs: "xs = x # rest" using assms by (cases xs) auto
  show ?thesis
    unfolding xs reduce1_def by (simp only: foldl_first_min list.case option.sel)
qed

lemma find_min_Some:
  fixes f :: "'a \<Rightarrow> int"
  assumes "xs \<noteq> []"
  shows "\<exists>t. find (\<lambda>t. \<forall>u\<in>set xs. f t \<le> f u) xs = Some t"
proof -
  obtain x rest where xs: "xs = x # rest" using assms by (cases xs) auto
  show ?thesis unfolding xs by (simp only: foldl_first_min) blast
qed

lemma low_branch_find:
  assumes "mood \<le> 2"
  shows "fetchSuggestedTask mood tasks =
     Inr (find (\<lambda>t. difficulty t \<le> 3 \<and>
                     (\<forall>u\<in>set tasks. difficulty u \<le> 3 \<longrightarrow> difficulty t \<le> difficulty u)) tasks)"
proof -
  let ?easy = "filter (\<lambda>t. difficulty t \<le> 3) tasks"
  let ?P = "\<lambda>t. \<forall>u\<in>set ?easy. difficulty t \<le> difficulty u"
  have eq: "find (\<lambda>t. difficulty t \<le> 3 \<and>
                     (\<forall>u\<in>set tasks. difficulty u \<le> 3 \<longrightarrow> difficulty t \<le> difficulty u)) tasks
          = find ?P ?easy"
    by (simp add: find_filter_conj) (rule find_cong, auto)
  show ?thesis
  proof (cases "?easy = []")
    case True
    then show ?thesis using assms unfolding eq
      by (simp add: fetchSuggestedTask_def)
  next
    case False
    then have ne: "tasks \<noteq> []" by auto
    obtain t where t: "find ?P ?easy = Some t"
      using find_min_Some[OF False, of difficulty] by blast
    have "reduce1 (\<lambda>prev current.
                     if difficulty current < difficulty prev then current else prev) ?easy
          = Inr t"
      using reduce1_first_min[OF False, of difficulty] t by simp
    then show ?thesis using assms False ne t unfolding eq
      by (simp add: fetchSuggestedTask_def Let_def)
  qed
qed

text \<open>
  What the high-mood branch of the code returns: where some task has difficulty at least
  4, only those tasks are searched for high priority; the first task is the fallback of
  either search.
\<close>

lemma high_branch_rule:
  assumes "tasks \<noteq> []" and "\<not> mood \<le> 2" and "mood \<noteq> 3"
  shows "fetchSuggestedTask mood tasks =
     Inr (Some (case (if filter (\<lambda>t. difficulty t \<ge> 4) tasks \<noteq> []
                      then find (\<lambda>t. difficulty t \<ge> 4 \<and> priority t = high) tasks
                      else find (\<lambda>t. priority t = high) tasks) of
                  Some t \<Rightarrow> t
                | None \<Rightarrow> hd tasks))"
proof -
  obtain x rest where ts: "tasks = x # rest" using assms(1) by (cases tasks) auto
  have hard: "at0 (filter (\<lambda>t. priority t = high) (filter (\<lambda>t. difficulty t \<ge> 4) tasks))
              = find (\<lambda>t. difficulty t \<ge> 4 \<and> priority t = high) tasks"
    by (simp only: at0_filter find_filter_conj)
  have any: "at0 (filter (\<lambda>t. priority t = high) tasks) = find (\<lambda>t. priority t = high) tasks"
    by (simp only: at0_filter)
  have none: "at0 (filter P tasks) = None \<longleftrightarrow> filter P tasks = []" for P
    by (simp add: at0_def split: list.splits)
  have first: "at0 tasks = Some (hd tasks)" by (simp add: ts at0_def)
  show ?thesis
  proof (cases "filter (\<lambda>t. difficulty t \<ge> 4) tasks = []")
    case True
    show ?thesis
    proof (cases "filter (\<lambda>t. priority t = high) tasks = []")
      case e: True
      then have "find (\<lambda>t. priority t = high) tasks = None"
        using any none by metis
      then show ?thesis using assms True e first
        by (simp add: fetchSuggestedTask_def)
    next
      case ne: False
      then obtain t where "find (\<lambda>t. priority t = high) tasks = Some t"
        using any none by (metis not_None_eq)
      then show ?thesis using assms True ne any
        by (simp add: fetchSuggestedTask_def)
    qed
  next
    case False
    let ?hh = "filter (\<lambda>t. priority t = high) (filter (\<lambda>t. difficulty t \<ge> 4) tasks)"
    show ?thesis
    proof (cases "?hh = []")
      case e: True
      then have "find (\<lambda>t. difficulty t \<ge> 4 \<and> priority t = high) tasks = None"
        using hard by (simp add: at0_def)
      then show ?thesis using assms False e first
        by (simp add: fetchSuggestedTask_def)
    next
      case ne: False
      then obtain t where "at0 ?hh = Some t"
        by (cases ?hh) (auto simp: at0_def)
      then have "find (\<lambda>t. difficulty t \<ge> 4 \<and> priority t = high) tasks = Some t"
        using hard by (simp only:)
      then show ?thesis using assms False ne hard
        by (simp add: fetchSuggestedTask_def)
    qed
  qed
qed

lemma neutral_branch_rule:
  assumes "tasks \<noteq> []"
  shows "fetchSuggestedTask 3 tasks =
           Inr (Some (case find (\<lambda>t. priority t = medium) tasks of
                        Some t \<Rightarrow> t
                      | None \<Rightarrow> hd tasks))"
proof -
  obtain x rest where ts: "tasks = x # rest" using assms by (cases tasks) auto
  have m: "at0 (filter (\<lambda>t. priority t = medium) tasks) = find (\<lambda>t. priority t = medium) tasks"
    by (simp only: at0_filter)
  show ?thesis
  proof (cases "filter (\<lambda>t. priority t = medium) tasks = []")
    case True
    then have "find (\<lambda>t. priority t = medium) tasks = None"
      using m by (simp add: at0_def)
    then show ?thesis using True by (simp add: fetchSuggestedTask_def ts at0_def)
  next
    case False
    then obtain t where "at0 (filter (\<lambda>t. priority t = medium) tasks) = Some t"
      by (cases "filter (\<lambda>t. priority t = medium) tasks") (auto simp: at0_def)
    then have "find (\<lambda>t. priority t = medium) tasks = Some t"
      using m by (simp only:)
    then show ?thesis using False m assms by (simp add: fetchSuggestedTask_def)
  qed
qed

text \<open>
  The same rule in the shape of a chain: the search for high priority among all tasks
  takes place only when no task has difficulty at least 4.
\<close>

lemma high_branch_chain:
  assumes "mood \<ge> 4" and "tasks \<noteq> []"
  shows "fetchSuggestedTask mood tasks =
     Inr (Some (case find (\<lambda>t. difficulty t \<ge> 4 \<and> priority t = high) tasks of
                  Some t \<Rightarrow> t
                | None \<Rightarrow>
                    if \<exists>t\<in>set tasks. difficulty t \<ge> 4 then hd tasks
                    else (case find (\<lambda>t. priority t = high) tasks of
                            Some t \<Rightarrow> t
                          | None \<Rightarrow> hd tasks)))"
proof -
  have m: "\<not> mood \<le> 2" "mood \<noteq> 3" using assms(1) by simp_all
  have hard: "filter (\<lambda>t. difficulty t \<ge> 4) tasks \<noteq> [] \<longleftrightarrow> (\<exists>t\<in>set tasks. difficulty t \<ge> 4)"
    by (simp add: filter_empty_conv)
  have none: "find (\<lambda>t. difficulty t \<ge> 4 \<and> priority t = high) tasks = None"
    if "\<not> (\<exists>t\<in>set tasks. difficulty t \<ge> 4)"
    using that by (auto simp: find_None_iff)
  show ?thesis
  proof (cases "\<exists>t\<in>set tasks. difficulty t \<ge> 4")
    case True
    then show ?thesis
      using high_branch_rule[OF assms(2) m] hard
      by (simp split: option.splits)
  next
    case False
    then show ?thesis
      using high_branch_rule[OF assms(2) m] hard none[OF False]
      by (simp split: option.splits)
  qed
qed

text \<open>
  Claim C1, the high-mood fallback chain, as the code has it: for a mood of at least 4
  and a non-empty list the operation returns the first task with difficulty at least 4
  and high priority; if there is none and no task at all has difficulty at least 4, the
  first task of high priority; in every other case the first task of the list. The
  tasks of high priority are searched among all tasks only when no task has difficulty
  at least 4.
\<close>

theorem high_mood_pool_rule:
  assumes "mood \<ge> 4" and "tasks \<noteq> []"
  shows "fetchSuggestedTask mood tasks =
     Inr (Some (case find (\<lambda>t. difficulty t \<ge> 4 \<and> priority t = high) tasks of
                  Some t \<Rightarrow> t
                | None \<Rightarrow>
                    if \<exists>t\<in>set tasks. difficulty t \<ge> 4 then hd tasks
                    else (case find (\<lambda>t. priority t = high) tasks of
                            Some t \<Rightarrow> t
                          | None \<Rightarrow> hd tasks)))"
  by (rule high_branch_chain[OF assms])

theorem high_mood_pool_rule_witness:
  "(5::int) \<ge> 4
   \<and> [example_task ''A'' low 1, example_task ''B'' low 5, example_task ''C'' high 2] \<noteq> []
   \<and> fetchSuggestedTask 5
       [example_task ''A'' low 1, example_task ''B'' low 5, example_task ''C'' high 2]
     = Inr (Some (example_task ''A'' low 1))
   \<and> fetchSuggestedTask 5
       [example_task ''A'' low 1, example_task ''B'' low 3, example_task ''C'' high 2]
     = Inr (Some (example_task ''C'' high 2))
   \<and> fetchSuggestedTask 5
       [example_task ''A'' low 1, example_task ''B'' high 3, example_task ''C'' high 4]
     = Inr (Some (example_task ''C'' high 4))"
proof -
  have h: "(5::int) \<ge> 4" by simp
  have n1: "[example_task ''A'' low 1, example_task ''B'' low 5, example_task ''C'' high 2]
              \<noteq> []" by simp
  have n2: "[example_task ''A'' low 1, example_task ''B'' low 3, example_task ''C'' high 2]
              \<noteq> []" by simp
  have n3: "[example_task ''A'' low 1, example_task ''B'' high 3, example_task ''C'' high 4]
              \<noteq> []" by simp
  show ?thesis
    using high_mood_pool_rule[OF h n1] high_mood_pool_rule[OF h n2]
      high_mood_pool_rule[OF h n3]
    by (simp add: example_task_def)
qed

text \<open>
  The chain as the specification words it differs from the code: with the tasks
  A (low, 1), B (low, 5), C (high, 2) in this order and mood 5 the code returns A, while
  the first task of high priority is C.
\<close>

theorem high_mood_fallback_diverges:
  "fetchSuggestedTask 5
     [example_task ''A'' low 1, example_task ''B'' low 5, example_task ''C'' high 2]
     = Inr (Some (example_task ''A'' low 1))
   \<and> high_mood_as_specified
       [example_task ''A'' low 1, example_task ''B'' low 5, example_task ''C'' high 2]
     = Some (example_task ''C'' high 2)
   \<and> example_task ''A'' low 1 \<noteq> example_task ''C'' high 2"
  by (simp add: fetchSuggestedTask_def high_mood_as_specified_def example_task_def at0_def)

text \<open>
  Claim C5, the low-mood suggestion: for a mood of at most 2 the operation returns the
  first task, in input order, among the tasks of difficulty at most 3 whose difficulty
  is least among those, and returns nothing exactly when no task has difficulty at
  most 3.
\<close>

theorem low_mood_first_easiest:
  assumes "mood \<le> 2"
  shows "fetchSuggestedTask mood tasks =
           Inr (find (\<lambda>t. difficulty t \<le> 3 \<and>
                          (\<forall>u\<in>set tasks. difficulty u \<le> 3 \<longrightarrow> difficulty t \<le> difficulty u))
                  tasks)
       \<and> (fetchSuggestedTask mood tasks = Inr None
            \<longleftrightarrow> (\<forall>t\<in>set tasks. \<not> difficulty t \<le> 3))"
proof -
  let ?Q = "\<lambda>t. difficulty t \<le> 3 \<and>
                 (\<forall>u\<in>set tasks. difficulty u \<le> 3 \<longrightarrow> difficulty t \<le> difficulty u)"
  have a: "fetchSuggestedTask mood tasks = Inr (find ?Q tasks)"
    by (rule low_branch_find[OF assms])
  have "find ?Q tasks = None \<longleftrightarrow> (\<forall>t\<in>set tasks. \<not> difficulty t \<le> 3)"
  proof
    assume n: "find ?Q tasks = None"
    show "\<forall>t\<in>set tasks. \<not> difficulty t \<le> 3"
    proof (rule ccontr)
      assume "\<not> (\<forall>t\<in>set tasks. \<not> difficulty t \<le> 3)"
      then have ne: "filter (\<lambda>t. difficulty t \<le> 3) tasks \<noteq> []"
        by (auto simp: filter_empty_conv)
      obtain t where t: "find (\<lambda>t. \<forall>u\<in>set (filter (\<lambda>t. difficulty t \<le> 3) tasks).
                                   difficulty t \<le> difficulty u)
                           (filter (\<lambda>t. difficulty t \<le> 3) tasks) = Some t"
        using find_min_Some[OF ne, of difficulty] by blast
      then have "t \<in> set tasks \<and> ?Q t"
        by (auto simp: find_Some_iff dest: nth_mem)
      then show False using n by (auto simp: find_None_iff)
    qed
  next
    assume "\<forall>t\<in>set tasks. \<not> difficulty t \<le> 3"
    then show "find ?Q tasks = None" by (auto simp: find_None_iff)
  qed
  with a show ?thesis by simp
qed

theorem low_mood_first_easiest_witness:
  "(2::int) \<le> 2
   \<and> fetchSuggestedTask 2
       [example_task ''A'' low 4, example_task ''B'' medium 3, example_task ''C'' low 1,
        example_task ''D'' high 1]
     = Inr (Some (example_task ''C'' low 1))
   \<and> fetchSuggestedTask 2 [example_task ''A'' low 4, example_task ''B'' high 5] = Inr None"
proof -
  have h: "(2::int) \<le> 2" by simp
  show ?thesis
    using low_mood_first_easiest[OF h,
            of "[example_task ''A'' low 4, example_task ''B'' medium 3,
                 example_task ''C'' low 1, example_task ''D'' high 1]"]
          low_mood_first_easiest[OF h,
            of "[example_task ''A'' low 4, example_task ''B'' high 5]"]
    by (simp add: example_task_def)
qed

text \<open>
  Claim C6, the neutral suggestion: for mood 3 and a non-empty list the operation returns
  the first task of medium priority, and the first task of the list when no task has
  medium priority.
\<close>

theorem neutral_mood_first_medium:
  assumes "tasks \<noteq> []"
  shows "fetchSuggestedTask 3 tasks =
           Inr (Some (case find (\<lambda>t. priority t = medium) tasks of
                        Some t \<Rightarrow> t
                      | None \<Rightarrow> hd tasks))"
  by (rule neutral_branch_rule[OF assms])

theorem neutral_mood_first_medium_witness:
  "[example_task ''A'' low 4, example_task ''B'' medium 3, example_task ''C'' medium 1] \<noteq> []
   \<and> fetchSuggestedTask 3
       [example_task ''A'' low 4, example_task ''B'' medium 3, example_task ''C'' medium 1]
     = Inr (Some (example_task ''B'' medium 3))
   \<and> fetchSuggestedTask 3 [example_task ''A'' low 4, example_task ''B'' high 3]
     = Inr (Some (example_task ''A'' low 4))"
proof -
  have h1: "[example_task ''A'' low 4, example_task ''B'' medium 3,
             example_task ''C'' medium 1] \<noteq> []" by simp
  have h2: "[example_task ''A'' low 4, example_task ''B'' high 3] \<noteq> []" by simp
  show ?thesis
    using neutral_mood_first_medium[OF h1] neutral_mood_first_medium[OF h2]
    by (simp add: example_task_def)
qed

text \<open>
  Claim C10, the mood dispatch, as the component has it: no mood raises an error. Mood 0
  is not dispatched at all: like \<open>null\<close> it clears the suggestion. Every other mood of at
  most 2 (negative values too) gets the low-mood rule, mood 3 the neutral rule, and every
  mood of 4 or more (values above 5 too) the high-mood rule; so every mood other than 0
  gives what the nearest of the moods 1 to 5 gives.
\<close>

theorem mood_gate_and_bands:
  "SuggestedTask_effect (Some mood) tasks =
     (if mood = 0 \<or> tasks = [] then Inr None
      else if mood \<le> 2 then
        Inr (find (\<lambda>t. difficulty t \<le> 3 \<and>
                       (\<forall>u\<in>set tasks. difficulty u \<le> 3 \<longrightarrow> difficulty t \<le> difficulty u))
               tasks)
      else if mood = 3 then
        Inr (Some (case find (\<lambda>t. priority t = medium) tasks of
                     Some t \<Rightarrow> t
                   | None \<Rightarrow> hd tasks))
      else
        Inr (Some (case find (\<lambda>t. difficulty t \<ge> 4 \<and> priority t = high) tasks of
                     Some t \<Rightarrow> t
                   | None \<Rightarrow>
                       if \<exists>t\<in>set tasks. difficulty t \<ge> 4 then hd tasks
                       else (case find (\<lambda>t. priority t = high) tasks of
                               Some t \<Rightarrow> t
                             | None \<Rightarrow> hd tasks))))
   \<and> (mood \<noteq> 0 \<longrightarrow>
        SuggestedTask_effect (Some mood) tasks
          = SuggestedTask_effect (Some (max 1 (min 5 mood))) tasks)
   \<and> SuggestedTask_effect None tasks = Inr None
   \<and> (\<exists>r. SuggestedTask_effect (Some mood) tasks = Inr r)"
proof -
  let ?low = "Inr (find (\<lambda>t. difficulty t \<le> 3 \<and>
                       (\<forall>u\<in>set tasks. difficulty u \<le> 3 \<longrightarrow> difficulty t \<le> difficulty u))
               tasks) :: js_error + task option"
  let ?neutral = "Inr (Some (case find (\<lambda>t. priority t = medium) tasks of
                     Some t \<Rightarrow> t
                   | None \<Rightarrow> hd tasks)) :: js_error + task option"
  let ?high = "Inr (Some (case find (\<lambda>t. difficulty t \<ge> 4 \<and> priority t = high) tasks of
                     Some t \<Rightarrow> t
                   | None \<Rightarrow>
                       if \<exists>t\<in>set tasks. difficulty t \<ge> 4 then hd tasks
                       else (case find (\<lambda>t. priority t = high) tasks of
                               Some t \<Rightarrow> t
                             | None \<Rightarrow> hd tasks))) :: js_error + task option"
  have gate: "SuggestedTask_effect (Some m) tasks
                = (if m = 0 then Inr None else fetchSuggestedTask m tasks)" for m
    by (simp add: SuggestedTask_effect_def)
  have empty: "fetchSuggestedTask m [] = Inr None" for m
    by (simp add: fetchSuggestedTask_def)
  have bands: "SuggestedTask_effect (Some mood) tasks =
     (if mood = 0 \<or> tasks = [] then Inr None
      else if mood \<le> 2 then ?low else if mood = 3 then ?neutral else ?high)"
  proof (cases "mood = 0 \<or> tasks = []")
    case True
    then show ?thesis using gate empty by auto
  next
    case False
    then have ne: "tasks \<noteq> []" and nz: "mood \<noteq> 0" by simp_all
    consider "mood \<le> 2" | "mood = 3" | "mood \<ge> 4" by linarith
    then show ?thesis
    proof cases
      case 1
      then show ?thesis using False gate low_branch_find[OF 1, of tasks] by simp
    next
      case 2
      then show ?thesis using False gate neutral_branch_rule[OF ne] by simp
    next
      case 3
      then show ?thesis using False gate high_branch_chain[OF 3 ne] by simp
    qed
  qed
  have near: "SuggestedTask_effect (Some mood) tasks
                = SuggestedTask_effect (Some (max 1 (min 5 mood))) tasks" if "mood \<noteq> 0"
    using that by (simp add: gate fetchSuggestedTask_def max_def min_def)
  have none: "SuggestedTask_effect None tasks = Inr None"
    by (simp add: SuggestedTask_effect_def)
  have total: "\<exists>r. SuggestedTask_effect (Some mood) tasks = Inr r"
    unfolding bands by simp
  show ?thesis using bands near none total by blast
qed

theorem mood_gate_and_bands_witness:
  "(-3::int) \<noteq> 0
   \<and> SuggestedTask_effect (Some (-3))
       [example_task ''A'' low 5, example_task ''B'' high 2, example_task ''C'' low 2]
     = Inr (Some (example_task ''B'' high 2))
   \<and> SuggestedTask_effect (Some (-3))
       [example_task ''A'' low 5, example_task ''B'' high 2, example_task ''C'' low 2]
     = SuggestedTask_effect (Some 1)
         [example_task ''A'' low 5, example_task ''B'' high 2, example_task ''C'' low 2]
   \<and> SuggestedTask_effect (Some 9)
       [example_task ''A'' low 5, example_task ''B'' high 2, example_task ''C'' low 2]
     = Inr (Some (example_task ''A'' low 5))
   \<and> SuggestedTask_effect (Some 0)
       [example_task ''A'' low 5, example_task ''B'' high 2, example_task ''C'' low 2]
     = Inr None"
proof -
  let ?ts = "[example_task ''A'' low 5, example_task ''B'' high 2, example_task ''C'' low 2]"
  have nz: "(-3::int) \<noteq> 0" by simp
  have f: "difficulty (example_task n p d) = d" "priority (example_task n p d) = p" for n p d
    by (simp_all add: example_task_def)
  have a: "SuggestedTask_effect (Some (-3)) ?ts = Inr (Some (example_task ''B'' high 2))"
    using mood_gate_and_bands[of "-3" ?ts, THEN conjunct1] by (simp add: f)
  have b: "SuggestedTask_effect (Some (-3)) ?ts = SuggestedTask_effect (Some 1) ?ts"
    using mood_gate_and_bands[of "-3" ?ts, THEN conjunct2, THEN conjunct1] nz by simp
  have c: "SuggestedTask_effect (Some 9) ?ts = Inr (Some (example_task ''A'' low 5))"
    using mood_gate_and_bands[of 9 ?ts, THEN conjunct1] by (simp add: f)
  have d: "SuggestedTask_effect (Some 0) ?ts = Inr None"
    using mood_gate_and_bands[of 0 ?ts, THEN conjunct1] by simp
  show ?thesis using nz a b c d by simp
qed

text \<open>
  The dispatch as the specification words it would give mood 0 the low-mood rule, like
  mood 1. With the tasks A (low, 5), B (high, 2), C (low, 2) mood 1 suggests B and mood 0
  suggests nothing.
\<close>

theorem mood_zero_is_not_low_band:
  "SuggestedTask_effect (Some 0)
     [example_task ''A'' low 5, example_task ''B'' high 2, example_task ''C'' low 2]
     = Inr None
   \<and> SuggestedTask_effect (Some 1)
       [example_task ''A'' low 5, example_task ''B'' high 2, example_task ''C'' low 2]
     = Inr (Some (example_task ''B'' high 2))"
  by (simp add: SuggestedTask_effect_def fetchSuggestedTask_def reduce1_def example_task_def)

section \<open>The full-list ranking: proofs\<close>

text \<open>
  For a comparator that subtracts keys, the comparator sort is the library's stable
  insertion sort by that key.
\<close>

lemma insert_cmp_insort_key:
  fixes f :: "'a \<Rightarrow> int"
  shows "insert_cmp (\<lambda>a b. f a - f b) x ys = insort_key f x ys"
  by (induction ys) auto

lemma array_sort_sort_key:
  fixes f :: "'a \<Rightarrow> int"
  shows "array_sort (\<lambda>a b. f a - f b) xs = sort_key f xs"
  by (induction xs) (simp_all add: array_sort_def insert_cmp_insort_key)

lemma array_sort_descending:
  fixes f :: "'a \<Rightarrow> int"
  shows "array_sort (\<lambda>a b. f b - f a) xs = sort_key (\<lambda>t. - f t) xs"
  using array_sort_sort_key[of "\<lambda>t. - f t" xs] by simp

lemma sorted_negated_key:
  fixes f :: "'a \<Rightarrow> int"
  shows "sorted (map (\<lambda>t. - f t) xs) = sorted_wrt (\<lambda>a b. f a \<ge> f b) xs"
  by (induction xs) auto

text \<open>
  Claim C7, the ranking for a low mood: for mood 1 or 2 (any mood of at most 2) the
  output holds exactly the incomplete tasks of difficulty at most 3, each as often as
  the input has it, in ascending order of difficulty; tasks of equal difficulty keep
  their input order. No completed task and no task of difficulty above 3 is in it.
\<close>

theorem low_mood_ranking:
  assumes "mood \<le> 2"
  shows "mset (sortTasksByMood tasks mood)
           = mset (filter (\<lambda>t. \<not> completed t \<and> difficulty t \<le> 3) tasks)
       \<and> (\<forall>t\<in>set (sortTasksByMood tasks mood). \<not> completed t \<and> difficulty t \<le> 3)
       \<and> sorted (map difficulty (sortTasksByMood tasks mood))
       \<and> (\<forall>k. filter (\<lambda>t. difficulty t = k) (sortTasksByMood tasks mood)
              = filter (\<lambda>t. difficulty t = k)
                  (filter (\<lambda>t. \<not> completed t \<and> difficulty t \<le> 3) tasks))"
proof -
  let ?sel = "filter (\<lambda>t. \<not> completed t \<and> difficulty t \<le> 3) tasks"
  have out: "sortTasksByMood tasks mood = sort_key difficulty ?sel"
    using assms by (simp add: sortTasksByMood_def array_sort_sort_key conj_commute)
  show ?thesis unfolding out
    by (simp add: sort_key_stable)
qed

theorem low_mood_ranking_witness:
  "(2::int) \<le> 2
   \<and> sorted (map difficulty (sortTasksByMood
        [example_task ''A'' low 4, example_task ''B'' medium 3,
         (example_task ''X'' high 1)\<lparr>completed := True\<rparr>, example_task ''C'' low 1,
         example_task ''D'' high 3, example_task ''E'' low 1] 2))
   \<and> map task_id (sortTasksByMood
        [example_task ''A'' low 4, example_task ''B'' medium 3,
         (example_task ''X'' high 1)\<lparr>completed := True\<rparr>, example_task ''C'' low 1,
         example_task ''D'' high 3, example_task ''E'' low 1] 2)
     = [''C'', ''E'', ''B'', ''D'']"
proof -
  have h: "(2::int) \<le> 2" by simp
  have "map task_id (sortTasksByMood
        [example_task ''A'' low 4, example_task ''B'' medium 3,
         (example_task ''X'' high 1)\<lparr>completed := True\<rparr>, example_task ''C'' low 1,
         example_task ''D'' high 3, example_task ''E'' low 1] 2)
     = [''C'', ''E'', ''B'', ''D'']"
    by (simp add: sortTasksByMood_def array_sort_def example_task_def)
  then show ?thesis
    using low_mood_ranking[OF h,
            of "[example_task ''A'' low 4, example_task ''B'' medium 3,
                 (example_task ''X'' high 1)\<lparr>completed := True\<rparr>, example_task ''C'' low 1,
                 example_task ''D'' high 3, example_task ''E'' low 1]"]
    by blast
qed

text \<open>
  Claim C8, the ranking for a neutral or high mood: for mood 3 and for every mood of at
  least 4 the output is a rearrangement of the incomplete tasks, so as long as their
  number, in descending order of the score \<open>priorityWeight(priority) * 10 + difficulty\<close>
  with the weights 3, 2, 1 for high, medium, low; tasks of equal score keep their input
  order.
\<close>

theorem scored_ranking:
  assumes "mood = 3 \<or> mood \<ge> 4"
  shows "length (sortTasksByMood tasks mood) = length (filter (\<lambda>t. \<not> completed t) tasks)
       \<and> mset (sortTasksByMood tasks mood) = mset (filter (\<lambda>t. \<not> completed t) tasks)
       \<and> sorted_wrt (\<lambda>a b. score a \<ge> score b) (sortTasksByMood tasks mood)
       \<and> (\<forall>k. filter (\<lambda>t. score t = k) (sortTasksByMood tasks mood)
              = filter (\<lambda>t. score t = k) (filter (\<lambda>t. \<not> completed t) tasks))
       \<and> (\<forall>t. score t = priorityWeight (priority t) * 10 + difficulty t)
       \<and> priorityWeight high = 3 \<and> priorityWeight medium = 2 \<and> priorityWeight low = 1"
proof -
  let ?inc = "filter (\<lambda>t. \<not> completed t) tasks"
  have out: "sortTasksByMood tasks mood = sort_key (\<lambda>t. - score t) ?inc"
    using assms by (auto simp add: sortTasksByMood_def Let_def array_sort_descending)
  have st: "filter (\<lambda>t. score t = k) (sort_key (\<lambda>t. - score t) ?inc)
            = filter (\<lambda>t. score t = k) ?inc" for k
    using sort_key_stable[of "\<lambda>t. - score t" "- k" ?inc] by simp
  have so: "sorted_wrt (\<lambda>a b. score a \<ge> score b) (sort_key (\<lambda>t. - score t) ?inc)"
    using sorted_sort_key[of "\<lambda>t. - score t" ?inc] by (simp only: sorted_negated_key)
  show ?thesis unfolding out using st so by (simp add: score_def)
qed

theorem scored_ranking_witness:
  "((3::int) = 3 \<or> (3::int) \<ge> 4) \<and> ((7::int) = 3 \<or> (7::int) \<ge> 4)
   \<and> length (sortTasksByMood
        [example_task ''A'' low 4, example_task ''B'' medium 3,
         (example_task ''X'' high 1)\<lparr>completed := True\<rparr>, example_task ''C'' low 1,
         example_task ''D'' high 3, example_task ''E'' low 1, example_task ''F'' medium 3] 3)
     = 6
   \<and> map task_id (sortTasksByMood
        [example_task ''A'' low 4, example_task ''B'' medium 3,
         (example_task ''X'' high 1)\<lparr>completed := True\<rparr>, example_task ''C'' low 1,
         example_task ''D'' high 3, example_task ''E'' low 1, example_task ''F'' medium 3] 7)
     = [''D'', ''B'', ''F'', ''A'', ''C'', ''E'']"
proof -
  have h3: "(3::int) = 3 \<or> (3::int) \<ge> 4" by simp
  have h7: "(7::int) = 3 \<or> (7::int) \<ge> 4" by simp
  have "map task_id (sortTasksByMood
        [example_task ''A'' low 4, example_task ''B'' medium 3,
         (example_task ''X'' high 1)\<lparr>completed := True\<rparr>, example_task ''C'' low 1,
         example_task ''D'' high 3, example_task ''E'' low 1, example_task ''F'' medium 3] 7)
     = [''D'', ''B'', ''F'', ''A'', ''C'', ''E'']"
    by (simp add: sortTasksByMood_def array_sort_def example_task_def score_def)
  then show ?thesis
    using h3 h7 scored_ranking[OF h3,
            of "[example_task ''A'' low 4, example_task ''B'' medium 3,
                 (example_task ''X'' high 1)\<lparr>completed := True\<rparr>, example_task ''C'' low 1,
                 example_task ''D'' high 3, example_task ''E'' low 1,
                 example_task ''F'' medium 3]"]
    by (simp add: example_task_def)
qed

section \<open>The schedule chain: proofs\<close>

text \<open>
  Claim C2, the order of the chain: the leave time is the start of the event less the
  travel duration and the buffer (seconds, hence times 1000 in milliseconds); each later
  instant is the one before less its routine duration (minutes, hence times 60000). A
  routine duration stored as \<open>null\<close> counts as 0. For an event at 2024-01-01T18:00:00Z,
  1800 seconds of travel, buffer 15, getting ready 45, cooking 30 and margin 30 the
  chain is 17:15:00Z, 16:30:00Z, 16:00:00Z, 15:30:00Z of that day.
\<close>

theorem schedule_chain_order:
  "leaveTime (schedule_chain p eventStart travelDurationSeconds)
     = eventStart - (travelDurationSeconds + ToNumber (travel_buffer_time p) * 60) * 1000
   \<and> getReadyTime (schedule_chain p eventStart travelDurationSeconds)
     = leaveTime (schedule_chain p eventStart travelDurationSeconds)
         - ToNumber (getting_ready_time p) * 60000
   \<and> cookStartTime (schedule_chain p eventStart travelDurationSeconds)
     = getReadyTime (schedule_chain p eventStart travelDurationSeconds)
         - ToNumber (cooking_time p) * 60000
   \<and> wakeUpTime (schedule_chain p eventStart travelDurationSeconds)
     = cookStartTime (schedule_chain p eventStart travelDurationSeconds)
         - ToNumber (wake_up_margin p) * 60000
   \<and> ToNumber (Some n) = n
   \<and> schedule_chain
        \<lparr>home_location = h, cooking_time = Some 30, getting_ready_time = Some 45,
         travel_buffer_time = Some 15, wake_up_margin = Some 30\<rparr>
        (utc_instant 2024 1 1 18 0 0) 1800
     = \<lparr>leaveTime = utc_instant 2024 1 1 17 15 0,
        getReadyTime = utc_instant 2024 1 1 16 30 0,
        cookStartTime = utc_instant 2024 1 1 16 0 0,
        wakeUpTime = utc_instant 2024 1 1 15 30 0\<rparr>"
  by (simp add: schedule_chain_def Let_def ToNumber_def utc_instant_def DayFromYear_def
        InLeapYear_def days_before_month_def)

text \<open>
  Claim C3, monotonicity of the chain: when the travel duration and the four routine
  durations are not negative, wake-up time, cooking start, getting-ready time, leave
  time and the start of the event follow each other in this order.
\<close>

theorem schedule_chain_monotone:
  assumes "0 \<le> travelDurationSeconds"
      and "0 \<le> ToNumber (travel_buffer_time p)"
      and "0 \<le> ToNumber (getting_ready_time p)"
      and "0 \<le> ToNumber (cooking_time p)"
      and "0 \<le> ToNumber (wake_up_margin p)"
  shows "wakeUpTime (schedule_chain p eventStart travelDurationSeconds)
           \<le> cookStartTime (schedule_chain p eventStart travelDurationSeconds)
       \<and> cookStartTime (schedule_chain p eventStart travelDurationSeconds)
           \<le> getReadyTime (schedule_chain p eventStart travelDurationSeconds)
       \<and> getReadyTime (schedule_chain p eventStart travelDurationSeconds)
           \<le> leaveTime (schedule_chain p eventStart travelDurationSeconds)
       \<and> leaveTime (schedule_chain p eventStart travelDurationSeconds) \<le> eventStart"
  using assms by (simp add: schedule_chain_def Let_def)

theorem schedule_chain_monotone_witness:
  "(0::int) \<le> 1800
   \<and> 0 \<le> ToNumber (travel_buffer_time example_profile)
   \<and> 0 \<le> ToNumber (getting_ready_time example_profile)
   \<and> 0 \<le> ToNumber (cooking_time example_profile)
   \<and> 0 \<le> ToNumber (wake_up_margin example_profile)
   \<and> wakeUpTime (schedule_chain example_profile 1704132000000 1800) = 1704123000000
   \<and> (1704123000000::int) \<le> cookStartTime (schedule_chain example_profile 1704132000000 1800)
   \<and> leaveTime (schedule_chain example_profile 1704132000000 1800) \<le> 1704132000000"
proof -
  have h1: "(0::int) \<le> 1800" by simp
  have h2: "0 \<le> ToNumber (travel_buffer_time example_profile)"
    by (simp add: example_profile_def ToNumber_def)
  have h3: "0 \<le> ToNumber (getting_ready_time example_profile)"
    by (simp add: example_profile_def ToNumber_def)
  have h4: "0 \<le> ToNumber (cooking_time example_profile)"
    by (simp add: example_profile_def ToNumber_def)
  have h5: "0 \<le> ToNumber (wake_up_margin example_profile)"
    by (simp add: example_profile_def ToNumber_def)
  have w: "wakeUpTime (schedule_chain example_profile 1704132000000 1800) = 1704123000000"
    by (simp add: schedule_chain_def Let_def example_profile_def ToNumber_def)
  show ?thesis
    using h1 h2 h3 h4 h5 w
      schedule_chain_monotone[OF h1 h2 h3 h4 h5, of 1704132000000]
    by simp
qed

section \<open>The batch: proofs\<close>

lemma collect_updates_acc:
  "collect_updates p fetch events acc = acc @ List.map_filter (pushed p fetch) events"
  by (induction events arbitrary: acc)
     (auto simp: pushed_def List.map_filter_simps split: sum.splits option.splits)

lemma routing_failed_pushed: "routing_failed (fetch e) \<Longrightarrow> pushed p fetch e = None"
  by (auto simp: routing_failed_def pushed_def process_event_def split: fetch_result.splits)



lemma length_map_filter:
  "length (List.map_filter f xs) = length (filter (\<lambda>x. f x \<noteq> None) xs)"
  by (simp add: List.map_filter_def)

lemma pushed_id: "pushed p fetch e = Some u \<Longrightarrow> upd_id u = event_id e"
  by (auto simp: pushed_def process_event_def Let_def
           split: sum.splits fetch_result.splits list.splits if_splits)

lemma pushed_fields:
  "pushed p fetch e = Some u \<Longrightarrow>
     upd_recommended_leave_time u
       = start_time e - (upd_travel_time_seconds u + ToNumber (travel_buffer_time p) * 60) * 1000"
  by (auto simp: pushed_def process_event_def schedule_chain_def Let_def
           split: sum.splits fetch_result.splits list.splits if_splits)

lemma process_event_routine:
  "process_event (p\<lparr>getting_ready_time := g, cooking_time := c, wake_up_margin := w\<rparr>) e r
     = process_event p e r"
  by (simp add: process_event_def schedule_chain_def Let_def
           split: fetch_result.splits list.splits)

lemma collect_updates_routine:
  "collect_updates (p\<lparr>getting_ready_time := g, cooking_time := c, wake_up_margin := w\<rparr>)
       fetch events acc
     = collect_updates p fetch events acc"
  by (induction events arbitrary: acc)
     (simp_all add: process_event_routine split: sum.splits option.splits)

section \<open>What the batch writes: proofs\<close>

lemma write_updates_rows:
  "write_updates answer us table
     = map (\<lambda>r. foldl (\<lambda>row u. write_row answer u row) r us) table"
  by (induction us arbitrary: table) (simp_all add: comp_def)

lemma event_id_write_row: "event_id (write_row answer u r) = event_id r"
  by (simp add: write_row_def apply_update_def update_updated_at_column_def
           split: write_result.splits)

lemma write_row_other: "upd_id u \<noteq> event_id r \<Longrightarrow> write_row answer u r = r"
  by (auto simp: write_row_def apply_update_def split: write_result.splits)

lemma write_row_twice: "write_row answer u (write_row answer u r) = write_row answer u r"
  by (simp add: write_row_def apply_update_def update_updated_at_column_def
           split: write_result.splits)

lemma write_row_own:
  "upd_id u = event_id r \<Longrightarrow>
     write_row answer u r
       = (case answer u of
            WriteError \<Rightarrow> r
          | Written t \<Rightarrow>
              r\<lparr>travel_time_seconds := Some (upd_travel_time_seconds u),
                recommended_leave_time := Some (upd_recommended_leave_time u),
                event_updated_at := t\<rparr>)"
  by (simp add: write_row_def apply_update_def update_updated_at_column_def
           split: write_result.splits)

lemma foldl_write_one:
  assumes "\<forall>u\<in>set us. upd_id u = event_id r \<longrightarrow> u = u0"
  shows "foldl (\<lambda>row u. write_row answer u row) r us
           = (if \<exists>u\<in>set us. upd_id u = event_id r then write_row answer u0 r else r)"
  using assms
proof (induction us rule: rev_induct)
  case Nil
  then show ?case by simp
next
  case (snoc u us)
  let ?inner = "foldl (\<lambda>row u. write_row answer u row) r us"
  have ih: "?inner = (if \<exists>u\<in>set us. upd_id u = event_id r then write_row answer u0 r else r)"
    using snoc by simp
  have idr: "event_id ?inner = event_id r"
    by (simp add: ih event_id_write_row)
  show ?case
  proof (cases "upd_id u = event_id r")
    case True
    then have "u = u0" using snoc.prems by simp
    then show ?thesis using True ih by (simp add: write_row_twice)
  next
    case False
    then have "write_row answer u ?inner = ?inner"
      using idr by (simp add: write_row_other)
    then show ?thesis using False ih by simp
  qed
qed

lemma frame_write_row:
  "(write_row answer u r)\<lparr>travel_time_seconds := None, recommended_leave_time := None,
                          event_updated_at := 0\<rparr>
     = r\<lparr>travel_time_seconds := None, recommended_leave_time := None, event_updated_at := 0\<rparr>"
  by (simp add: write_row_def apply_update_def update_updated_at_column_def
           split: write_result.splits)

lemma frame_write_updates:
  "map (\<lambda>r. r\<lparr>travel_time_seconds := None, recommended_leave_time := None,
              event_updated_at := 0\<rparr>)
       (write_updates answer us table)
     = map (\<lambda>r. r\<lparr>travel_time_seconds := None, recommended_leave_time := None,
                  event_updated_at := 0\<rparr>) table"
  by (induction us arbitrary: table) (simp_all add: comp_def frame_write_row)

lemma frame_handler:
  "map (\<lambda>r. r\<lparr>travel_time_seconds := None, recommended_leave_time := None,
              event_updated_at := 0\<rparr>)
       (snd (handler env table))
     = map (\<lambda>r. r\<lparr>travel_time_seconds := None, recommended_leave_time := None,
                  event_updated_at := 0\<rparr>) table"
  by (simp add: handler_def run_batch_def Let_def frame_write_updates split: option.splits)

text \<open>
  With distinct identifiers, the second loop writes exactly the rows of the events that
  pushed an update and whose statement the database answered with success.
\<close>

lemma written_rows:
  assumes d: "distinct (map event_id table)" and sub: "set events \<subseteq> set table"
  shows "write_updates answer (List.map_filter (pushed p fetch) events) table
     = map (\<lambda>r. case (if r \<in> set events then pushed p fetch r else None) of
                  None \<Rightarrow> r
                | Some u \<Rightarrow>
                    (case answer u of
                       WriteError \<Rightarrow> r
                     | Written t \<Rightarrow>
                         r\<lparr>travel_time_seconds := Some (upd_travel_time_seconds u),
                           recommended_leave_time := Some (upd_recommended_leave_time u),
                           event_updated_at := t\<rparr>))
         table"
proof -
  let ?us = "List.map_filter (pushed p fetch) events"
  have inj: "inj_on event_id (set table)"
    using d by (simp add: distinct_map)
  have mem: "u \<in> set ?us \<longleftrightarrow> (\<exists>e\<in>set events. pushed p fetch e = Some u)" for u
    by (induction events) (auto simp: List.map_filter_simps split: option.splits)
  have row: "foldl (\<lambda>row u. write_row answer u row) r ?us
       = (case (if r \<in> set events then pushed p fetch r else None) of
            None \<Rightarrow> r
          | Some u \<Rightarrow>
              (case answer u of
                 WriteError \<Rightarrow> r
               | Written t \<Rightarrow>
                   r\<lparr>travel_time_seconds := Some (upd_travel_time_seconds u),
                     recommended_leave_time := Some (upd_recommended_leave_time u),
                     event_updated_at := t\<rparr>))"
    if r: "r \<in> set table" for r
  proof -
    have own: "e = r" if "e \<in> set events" and "event_id e = event_id r" for e
      using that r sub inj by (auto dest: inj_onD)
    show ?thesis
    proof (cases "r \<in> set events \<and> pushed p fetch r \<noteq> None")
      case True
      then obtain u0 where u0: "pushed p fetch r = Some u0" by auto
      have one: "\<forall>u\<in>set ?us. upd_id u = event_id r \<longrightarrow> u = u0"
      proof (intro ballI impI)
        fix u assume "u \<in> set ?us" and i: "upd_id u = event_id r"
        then obtain e where e: "e \<in> set events" "pushed p fetch e = Some u"
          using mem by auto
        then have "e = r" using own pushed_id[OF e(2)] i by simp
        then show "u = u0" using e u0 by simp
      qed
      have ex: "\<exists>u\<in>set ?us. upd_id u = event_id r"
        using True u0 mem pushed_id[OF u0] by auto
      show ?thesis
        using foldl_write_one[OF one] ex True u0 write_row_own[OF pushed_id[OF u0]]
        by simp
    next
      case False
      have no: "\<not> (\<exists>u\<in>set ?us. upd_id u = event_id r)"
      proof
        assume "\<exists>u\<in>set ?us. upd_id u = event_id r"
        then obtain u e where i: "upd_id u = event_id r"
          and e: "e \<in> set events" "pushed p fetch e = Some u"
          using mem by auto
        then have "e = r" using own pushed_id[OF e(2)] by simp
        then show False using False e by simp
      qed
      have "\<forall>u\<in>set ?us. upd_id u = event_id r \<longrightarrow> u = undefined"
        using no by blast
      from foldl_write_one[OF this] no
      have "foldl (\<lambda>row u. write_row answer u row) r ?us = r" by simp
      then show ?thesis using False by (auto split: option.splits)
    qed
  qed
  show ?thesis
    unfolding write_updates_rows by (rule map_cong) (simp_all add: row)
qed

text \<open>
  When the request is authenticated, the profile has a home location and the query for
  the events succeeds, the handler is the batch over the selected rows of the table.
\<close>

lemma handler_runs_batch:
  assumes "reaches_batch env uid p"
  shows "handler env table
           = run_batch p (directions_api env) (db_update env)
               (select_events uid (now env) table) table"
  using assms by (simp add: handler_def reaches_batch_def)

lemma example_reaches_batch:
  "reaches_batch example_env ''u1'' example_profile"
  "reaches_batch example_env_write_error ''u1'' example_profile"
  by (simp_all add: reaches_batch_def example_env_def example_env_write_error_def
        example_profile_def falsy_def)

lemma run_batch_rows:
  assumes "distinct (map event_id table)" and "set events \<subseteq> set table"
  shows "run_batch p fetch answer events table
     = (Updated (length (filter (\<lambda>x. pushed p fetch x \<noteq> None) events)),
        map (\<lambda>r. case (if r \<in> set events then pushed p fetch r else None) of
                    None \<Rightarrow> r
                  | Some u \<Rightarrow>
                      (case answer u of
                         WriteError \<Rightarrow> r
                       | Written t \<Rightarrow>
                           r\<lparr>travel_time_seconds := Some (upd_travel_time_seconds u),
                             recommended_leave_time := Some (upd_recommended_leave_time u),
                             event_updated_at := t\<rparr>))
            table)"
  using written_rows[OF assms, of answer p fetch]
  by (simp add: run_batch_def Let_def collect_updates_acc length_map_filter)

text \<open>The update pushed for an event of the examples, and the events selected.\<close>

lemma example_pushed:
  "pushed example_profile example_fetch (example_event n)
     = (if n = ''e3'' then None
        else Some \<lparr>upd_id = n, upd_travel_time_seconds = 1800,
                   upd_recommended_leave_time = utc_instant 2024 1 1 17 15 0\<rparr>)"
  by (simp add: pushed_def process_event_def example_fetch_def example_event_def
        ok_reply_def schedule_chain_def Let_def example_profile_def ToNumber_def
        utc_instant_def DayFromYear_def InLeapYear_def days_before_month_def)

lemma example_selected:
  "select_events ''u1'' (utc_instant 2023 12 31 9 0 0) example_events = example_events"
  by (simp add: select_events_def example_events_def example_event_def
        utc_instant_def DayFromYear_def InLeapYear_def days_before_month_def)

lemma example_distinct: "distinct (map event_id example_events)"
  by (simp add: example_events_def example_event_def)

lemma handler_rows:
  assumes g: "reaches_batch env uid p" and d: "distinct (map event_id table)"
  shows "handler env table
     = (Updated (length (filter (\<lambda>x. pushed p (directions_api env) x \<noteq> None)
                           (select_events uid (now env) table))),
        map (\<lambda>r. case (if r \<in> set (select_events uid (now env) table)
                         then pushed p (directions_api env) r else None) of
                    None \<Rightarrow> r
                  | Some u \<Rightarrow>
                      (case db_update env u of
                         WriteError \<Rightarrow> r
                       | Written t \<Rightarrow>
                           r\<lparr>travel_time_seconds := Some (upd_travel_time_seconds u),
                             recommended_leave_time := Some (upd_recommended_leave_time u),
                             event_updated_at := t\<rparr>))
            table)"
proof -
  have sub: "set (select_events uid (now env) table) \<subseteq> set table"
    by (auto simp: select_events_def)
  show ?thesis
    unfolding handler_runs_batch[OF g] by (rule run_batch_rows[OF d sub])
qed




text \<open>
  Claim C9, what the batch writes, as the code and the schema have it: after the batch,
  and after the handler on any path, every row of the table is the row it was in all
  fields other than \<open>travel_time_seconds\<close>, \<open>recommended_leave_time\<close> and \<open>updated_at\<close>;
  the update names the first two, and the trigger of the table sets the third on each
  row written. The getting-ready, cooking and wake-up durations, and so the three
  instants computed from them, have no influence on the response or on the table. With
  distinct row identifiers, a row is written exactly when it is one of the processed
  events, its processing pushed an update and the database answered the statement with
  success; it then carries the travel seconds of the reply, the leave time and the
  instant of the statement. The row of an event whose routing failed, and every row
  that was not processed, stays as it was.
\<close>

theorem batch_write_frame:
  "map (\<lambda>r. r\<lparr>travel_time_seconds := None, recommended_leave_time := None,
              event_updated_at := 0\<rparr>)
       (snd (run_batch p fetch answer events table))
     = map (\<lambda>r. r\<lparr>travel_time_seconds := None, recommended_leave_time := None,
                  event_updated_at := 0\<rparr>) table
   \<and> map (\<lambda>r. r\<lparr>travel_time_seconds := None, recommended_leave_time := None,
                event_updated_at := 0\<rparr>)
       (snd (handler env table))
     = map (\<lambda>r. r\<lparr>travel_time_seconds := None, recommended_leave_time := None,
                  event_updated_at := 0\<rparr>) table
   \<and> run_batch (p\<lparr>getting_ready_time := g, cooking_time := c, wake_up_margin := w\<rparr>)
         fetch answer events table
     = run_batch p fetch answer events table
   \<and> (distinct (map event_id table) \<and> set events \<subseteq> set table \<longrightarrow>
        snd (run_batch p fetch answer events table)
          = map (\<lambda>r. case (if r \<in> set events then pushed p fetch r else None) of
                       None \<Rightarrow> r
                     | Some u \<Rightarrow>
                         (case answer u of
                            WriteError \<Rightarrow> r
                          | Written t \<Rightarrow>
                              r\<lparr>travel_time_seconds := Some (upd_travel_time_seconds u),
                                recommended_leave_time
                                  := Some (upd_recommended_leave_time u),
                                event_updated_at := t\<rparr>))
              table)
   \<and> (routing_failed (fetch e) \<longrightarrow> pushed p fetch e = None)
   \<and> (pushed p fetch e = Some u \<longrightarrow>
        upd_id u = event_id e
        \<and> upd_recommended_leave_time u
            = start_time e
                - (upd_travel_time_seconds u + ToNumber (travel_buffer_time p) * 60) * 1000)"
proof -
  have f1: "map (\<lambda>r. r\<lparr>travel_time_seconds := None, recommended_leave_time := None,
              event_updated_at := 0\<rparr>)
       (snd (run_batch p fetch answer events table))
     = map (\<lambda>r. r\<lparr>travel_time_seconds := None, recommended_leave_time := None,
                  event_updated_at := 0\<rparr>) table"
    by (simp add: run_batch_def Let_def frame_write_updates)
  have f2: "run_batch (p\<lparr>getting_ready_time := g, cooking_time := c, wake_up_margin := w\<rparr>)
         fetch answer events table
     = run_batch p fetch answer events table"
    by (simp add: run_batch_def collect_updates_routine)
  have f3: "snd (run_batch p fetch answer events table)
          = map (\<lambda>r. case (if r \<in> set events then pushed p fetch r else None) of
                       None \<Rightarrow> r
                     | Some u \<Rightarrow>
                         (case answer u of
                            WriteError \<Rightarrow> r
                          | Written t \<Rightarrow>
                              r\<lparr>travel_time_seconds := Some (upd_travel_time_seconds u),
                                recommended_leave_time
                                  := Some (upd_recommended_leave_time u),
                                event_updated_at := t\<rparr>))
              table"
    if "distinct (map event_id table)" and "set events \<subseteq> set table"
    by (simp add: run_batch_rows[OF that])
  show ?thesis
    using f1 f2 f3 frame_handler routing_failed_pushed pushed_id pushed_fields
    by blast
qed

theorem batch_write_frame_witness:
  "distinct (map event_id example_events)
   \<and> set example_events \<subseteq> set example_events
   \<and> routing_failed (example_fetch (example_event ''e3''))
   \<and> snd (run_batch example_profile example_fetch
            (\<lambda>u. if upd_id u = ''e2'' then WriteError else Written 1704013201000)
            example_events example_events)
     = map (\<lambda>r. if event_id r = ''e2'' \<or> event_id r = ''e3'' then r
                 else r\<lparr>travel_time_seconds := Some 1800,
                        recommended_leave_time := Some (utc_instant 2024 1 1 17 15 0),
                        event_updated_at := 1704013201000\<rparr>)
         example_events"
proof -
  have s: "set example_events \<subseteq> set example_events" by simp
  have f: "routing_failed (example_fetch (example_event ''e3''))"
    by (simp add: routing_failed_def example_fetch_def example_event_def)
  have i: "event_id (example_event n) = n" for n
    by (simp add: example_event_def)
  show ?thesis
    using example_distinct s f
      batch_write_frame[of example_profile example_fetch
        "\<lambda>u. if upd_id u = ''e2'' then WriteError else Written 1704013201000"
        example_events example_events]
    by (simp add: example_events_def example_pushed i)
qed

text \<open>
  Another field does change: the rows that the handler writes get a new \<open>updated_at\<close>.
\<close>

theorem updated_at_is_rewritten:
  "map event_updated_at example_events = [0, 0, 0, 0, 0]
   \<and> map event_updated_at (snd (handler example_env example_events))
       = [1704013201000, 1704013201000, 0, 1704013201000, 1704013201000]"
proof -
  have env: "directions_api example_env = example_fetch"
    "now example_env = utc_instant 2023 12 31 9 0 0"
    "db_update example_env u = Written 1704013201000" for u
    by (simp_all add: example_env_def utc_instant_def DayFromYear_def InLeapYear_def
          days_before_month_def)
  have i: "event_id (example_event n) = n" "event_updated_at (example_event n) = 0" for n
    by (simp_all add: example_event_def)
  show ?thesis
    unfolding handler_rows[OF example_reaches_batch(1) example_distinct]
    by (simp add: env example_selected) (simp add: env example_events_def example_pushed i)
qed

end
